theory Spec2Isabelle
  imports Main
begin

section \<open>Byte strings and UTF-8\<close>

text \<open>
  A Go \<^verbatim>\<open>string\<close> and a \<^verbatim>\<open>[]byte\<close> are sequences of bytes; both are modelled as
  \<^typ>\<open>string\<close>, a list of 8-bit characters. A rune is a natural number.
\<close>

abbreviation byte :: "char \<Rightarrow> nat" where
  "byte c \<equiv> of_char c"

definition RuneError :: nat where
  "RuneError = 0xFFFD"

definition acceptLo :: "nat \<Rightarrow> nat" where
  "acceptLo s0 = (if s0 = 0xE0 then 0xA0 else if s0 = 0xF0 then 0x90 else 0x80)"

definition acceptHi :: "nat \<Rightarrow> nat" where
  "acceptHi s0 = (if s0 = 0xED then 0x9F else if s0 = 0xF4 then 0x8F else 0xBF)"

text \<open>
  \<^verbatim>\<open>utf8.DecodeRuneInString\<close>: the rune at the head of the string and its width in
  bytes; \<open>(RuneError, 0)\<close> on the empty string and \<open>(RuneError, 1)\<close> on an encoding
  that is not valid UTF-8.
\<close>

definition decodeRune :: "string \<Rightarrow> nat \<times> nat" where
  "decodeRune s =
     (if s = [] then (RuneError, 0)
      else let s0 = byte (s ! 0) in
        if s0 < 0x80 then (s0, 1)
        else if s0 < 0xC2 \<or> 0xF4 < s0 then (RuneError, 1)
        else let sz = (if s0 < 0xE0 then 2 else if s0 < 0xF0 then 3 else (4::nat)) in
          if length s < sz then (RuneError, 1)
          else let s1 = byte (s ! 1) in
            if s1 < acceptLo s0 \<or> acceptHi s0 < s1 then (RuneError, 1)
            else if sz \<le> 2 then ((s0 mod 32) * 64 + s1 mod 64, 2)
            else let s2 = byte (s ! 2) in
              if s2 < 0x80 \<or> 0xBF < s2 then (RuneError, 1)
              else if sz \<le> 3 then ((s0 mod 16) * 4096 + (s1 mod 64) * 64 + s2 mod 64, 3)
              else let s3 = byte (s ! 3) in
                if s3 < 0x80 \<or> 0xBF < s3 then (RuneError, 1)
                else ((s0 mod 8) * 262144 + (s1 mod 64) * 4096 + (s2 mod 64) * 64
                        + s3 mod 64, 4))"

text \<open>\<^verbatim>\<open>utf8.AppendRune\<close>: surrogates and values beyond U+10FFFF encode as U+FFFD.\<close>

definition encodeRune :: "nat \<Rightarrow> string" where
  "encodeRune r =
     (if r \<le> 0x7F then [char_of r]
      else if r \<le> 0x7FF then [char_of (0xC0 + r div 64), char_of (0x80 + r mod 64)]
      else let r' = (if 0x10FFFF < r \<or> (0xD800 \<le> r \<and> r \<le> 0xDFFF) then RuneError else r) in
        if r' \<le> 0xFFFF
        then [char_of (0xE0 + r' div 4096), char_of (0x80 + (r' div 64) mod 64),
              char_of (0x80 + r' mod 64)]
        else [char_of (0xF0 + r' div 262144), char_of (0x80 + (r' div 4096) mod 64),
              char_of (0x80 + (r' div 64) mod 64), char_of (0x80 + r' mod 64)])"

definition invalidAt :: "string \<Rightarrow> bool" where
  "invalidAt s = (fst (decodeRune s) = RuneError \<and> snd (decodeRune s) = 1)"

lemma decodeRune_size_pos: "s \<noteq> [] \<Longrightarrow> 0 < snd (decodeRune s)"
  by (simp add: decodeRune_def Let_def)

lemma decodeRune_size_le: "snd (decodeRune s) \<le> length s"
  unfolding decodeRune_def Let_def
  by (cases s) (auto simp: not_less Suc_le_eq split: if_splits)

text \<open>\<^verbatim>\<open>utf8.ValidString\<close>.\<close>

function ValidString :: "string \<Rightarrow> bool" where
  "ValidString s =
     (if s = [] then True
      else if invalidAt s then False
      else ValidString (drop (snd (decodeRune s)) s))"
  by pat_completeness auto
termination
  by (relation "measure length") (auto simp: decodeRune_size_pos)

declare ValidString.simps [simp del]

section \<open>strings.TrimSpace\<close>

text \<open>\<^verbatim>\<open>unicode.IsSpace\<close>: the Latin-1 spaces, then the White_Space table.\<close>

definition IsSpace :: "nat \<Rightarrow> bool" where
  "IsSpace r =
     (if r \<le> 0xFF then r \<in> {0x09, 0x0A, 0x0B, 0x0C, 0x0D, 0x20, 0x85, 0xA0}
      else r = 0x1680 \<or> (0x2000 \<le> r \<and> r \<le> 0x200A) \<or> r = 0x2028 \<or> r = 0x2029
           \<or> r = 0x202F \<or> r = 0x205F \<or> r = 0x3000)"

definition RuneStart :: "char \<Rightarrow> bool" where
  "RuneStart b = (byte b < 0x80 \<or> 0xC0 \<le> byte b)"

text \<open>
  The backward loop of \<^verbatim>\<open>utf8.DecodeLastRuneInString\<close>: the largest position in
  \<open>lim .. lim + k - 1\<close> that holds a rune start, or \<open>lim - 1\<close> clamped at 0.
\<close>

primrec lastStart :: "string \<Rightarrow> nat \<Rightarrow> nat \<Rightarrow> nat" where
  "lastStart s lim 0 = lim - 1"
| "lastStart s lim (Suc k) = (if RuneStart (s ! (lim + k)) then lim + k else lastStart s lim k)"

definition decodeLastRune :: "string \<Rightarrow> nat \<times> nat" where
  "decodeLastRune s =
     (let end = length s in
      if end = 0 then (RuneError, 0)
      else let r = byte (s ! (end - 1)) in
        if r < 0x80 then (r, 1)
        else let lim = end - 4;
                 start = lastStart s lim (end - 1 - lim);
                 (r, size) = decodeRune (drop start s)
             in if start + size \<noteq> end then (RuneError, 1) else (r, size))"

lemma lastStart_le: "lastStart s lim k \<le> lim + k - 1"
  by (induction k) auto

lemma decodeLastRune_size_pos: "s \<noteq> [] \<Longrightarrow> 0 < snd (decodeLastRune s)"
proof -
  assume ne: "s \<noteq> []"
  define start where "start = lastStart s (length s - 4) (length s - 1 - (length s - 4))"
  have "start \<le> length s - 4 + (length s - 1 - (length s - 4)) - 1"
    unfolding start_def by (rule lastStart_le)
  with ne have "start < length s"
    by (cases s) auto
  then have "0 < snd (decodeRune (drop start s))"
    by (simp add: decodeRune_size_pos)
  then show ?thesis
    using ne by (auto simp: decodeLastRune_def Let_def start_def split: prod.splits)
qed

text \<open>\<^verbatim>\<open>strings.TrimLeftFunc(s, unicode.IsSpace)\<close>.\<close>

function TrimLeft :: "string \<Rightarrow> string" where
  "TrimLeft s =
     (if s = [] then []
      else if IsSpace (fst (decodeRune s)) then TrimLeft (drop (snd (decodeRune s)) s)
      else s)"
  by pat_completeness auto
termination
  by (relation "measure length") (auto simp: decodeRune_size_pos)

declare TrimLeft.simps [simp del]

text \<open>
  \<^verbatim>\<open>lastIndexFunc(s, unicode.IsSpace, false)\<close> on the prefix still to be examined: the
  index where the last rune that is not a space starts, \<open>None\<close> for Go's \<open>-1\<close>.
\<close>

function lastIndexFunc :: "string \<Rightarrow> nat option" where
  "lastIndexFunc p =
     (if p = [] then None
      else if IsSpace (fst (decodeLastRune p))
      then lastIndexFunc (take (length p - snd (decodeLastRune p)) p)
      else Some (length p - snd (decodeLastRune p)))"
  by pat_completeness auto
termination
  by (relation "measure length") (auto simp: decodeLastRune_size_pos)

declare lastIndexFunc.simps [simp del]

text \<open>\<^verbatim>\<open>strings.TrimRightFunc(s, unicode.IsSpace)\<close>.\<close>

definition TrimRight :: "string \<Rightarrow> string" where
  "TrimRight s =
     (case lastIndexFunc s of
        None \<Rightarrow> []
      | Some i \<Rightarrow>
          if 0x80 \<le> byte (s ! i) then take (i + snd (decodeRune (drop i s))) s
          else take (i + 1) s)"

text \<open>
  \<^verbatim>\<open>strings.TrimSpace\<close>. Its loops over ASCII bytes are a fast path of
  \<^verbatim>\<open>TrimFunc(s, unicode.IsSpace)\<close>, which is what is modelled.
\<close>

definition TrimSpace :: "string \<Rightarrow> string" where
  "TrimSpace s = TrimRight (TrimLeft s)"

section \<open>The ledger codec: encoding/json on []Submission\<close>

text \<open>
  \<^verbatim>\<open>type Submission struct\<close> with its tags: \<^verbatim>\<open>name\<close>, \<^verbatim>\<open>phone\<close>,
  \<^verbatim>\<open>linkedin,omitempty\<close>, \<^verbatim>\<open>timestamp\<close>.
\<close>

record Submission =
  Name :: string
  Phone :: string
  LinkedIn :: string
  Timestamp :: string

abbreviation dq :: char where
  "dq \<equiv> CHR 0x22"

abbreviation bsl :: char where
  "bsl \<equiv> CHR 0x5C"

subsection \<open>json.MarshalIndent(arr, "", "  ")\<close>

definition hex :: "nat \<Rightarrow> char" where
  "hex n = ''0123456789abcdef'' ! n"

definition htmlSafe :: "nat \<Rightarrow> bool" where
  "htmlSafe b = (0x20 \<le> b \<and> b < 0x80 \<and> b \<notin> {0x22, 0x26, 0x3C, 0x3E, 0x5C})"

text \<open>
  The encoder's \<^verbatim>\<open>appendString\<close> (with HTML escaping, as \<^verbatim>\<open>MarshalIndent\<close> sets it):
  what it writes for a byte below \<^verbatim>\<open>utf8.RuneSelf\<close>.
\<close>

definition escapeASCII :: "char \<Rightarrow> string" where
  "escapeASCII c =
     (let b = byte c in
      if htmlSafe b then [c]
      else if b = 0x5C \<or> b = 0x22 then [bsl, c]
      else if b = 0x08 then [bsl, CHR ''b'']
      else if b = 0x0C then [bsl, CHR ''f'']
      else if b = 0x0A then [bsl, CHR ''n'']
      else if b = 0x0D then [bsl, CHR ''r'']
      else if b = 0x09 then [bsl, CHR ''t'']
      else [bsl, CHR ''u'', CHR ''0'', CHR ''0'', hex (b div 16), hex (b mod 16)])"

text \<open>
  One round of its loop: the text written for the rune at the head of a non-empty
  string, and the number of bytes consumed.
\<close>

definition escapeStep :: "string \<Rightarrow> string \<times> nat" where
  "escapeStep s =
     (if byte (s ! 0) < 0x80 then (escapeASCII (s ! 0), 1)
      else let (c, size) = decodeRune s in
        if c = RuneError \<and> size = 1
        then ([bsl, CHR ''u'', CHR ''f'', CHR ''f'', CHR ''f'', CHR ''d''], size)
        else if c = 0x2028 \<or> c = 0x2029
        then ([bsl, CHR ''u'', CHR ''2'', CHR ''0'', CHR ''2'', hex (c mod 16)], size)
        else (take size s, size))"

lemma escapeStep_pos: "s \<noteq> [] \<Longrightarrow> 0 < snd (escapeStep s)"
  using decodeRune_size_pos [of s]
  by (auto simp: escapeStep_def split: prod.splits)

function escape :: "string \<Rightarrow> string" where
  "escape s =
     (if s = [] then []
      else fst (escapeStep s) @ escape (drop (snd (escapeStep s)) s))"
  by pat_completeness auto
termination
  by (relation "measure length") (auto simp: escapeStep_pos)

declare escape.simps [simp del]

definition appendString :: "string \<Rightarrow> string" where
  "appendString s = dq # escape s @ [dq]"

text \<open>A line break of \<^verbatim>\<open>json.Indent\<close> with prefix \<^verbatim>\<open>""\<close> and indent of two spaces.\<close>

definition newline :: "nat \<Rightarrow> string" where
  "newline depth = CHR 0x0A # replicate (2 * depth) CHR '' ''"

text \<open>A field of the struct: its name, quoted like any string, and its value.\<close>

definition member :: "string \<Rightarrow> string \<Rightarrow> string" where
  "member key v = appendString key @ '': '' @ appendString v"

definition encodeSubmission :: "Submission \<Rightarrow> string" where
  "encodeSubmission r =
     ''{'' @ newline 2 @ member ''name'' (Name r) @ '','' @
     newline 2 @ member ''phone'' (Phone r) @ '','' @
     (if LinkedIn r = [] then [] else newline 2 @ member ''linkedin'' (LinkedIn r) @ '','') @
     newline 2 @ member ''timestamp'' (Timestamp r) @
     newline 1 @ ''}''"

fun encodeElements :: "Submission list \<Rightarrow> string" where
  "encodeElements [] = []"
| "encodeElements [r] = encodeSubmission r"
| "encodeElements (r # rs) = encodeSubmission r @ '','' @ newline 1 @ encodeElements rs"

text \<open>
  An empty, non-nil slice is written \<^verbatim>\<open>[]\<close>. (A nil slice would be written
  \<^verbatim>\<open>null\<close>; the slice the program encodes is never nil.)
\<close>

definition MarshalIndent :: "Submission list \<Rightarrow> string" where
  "MarshalIndent arr =
     (if arr = [] then ''[]''
      else ''['' @ newline 1 @ encodeElements arr @ newline 0 @ '']'')"

subsection \<open>json.Unmarshal(content, &arr): the scanner\<close>

datatype token =
  TLBrace | TRBrace | TLBracket | TRBracket | TColon | TComma
  | TString string | TNumber | TTrue | TFalse | TNull

definition isSpace :: "char \<Rightarrow> bool" where
  "isSpace c = (c = CHR '' '' \<or> c = CHR 0x09 \<or> c = CHR 0x0D \<or> c = CHR 0x0A)"

definition isDigit :: "char \<Rightarrow> bool" where
  "isDigit c = (0x30 \<le> byte c \<and> byte c \<le> 0x39)"

definition hexval :: "char \<Rightarrow> nat option" where
  "hexval c =
     (let b = byte c in
      if 0x30 \<le> b \<and> b \<le> 0x39 then Some (b - 0x30)
      else if 0x61 \<le> b \<and> b \<le> 0x66 then Some (b - 0x61 + 10)
      else if 0x41 \<le> b \<and> b \<le> 0x46 then Some (b - 0x41 + 10)
      else None)"

text \<open>\<^verbatim>\<open>getu4\<close>: the value of a leading \<^verbatim>\<open>\uXXXX\<close>, \<open>None\<close> for Go's \<open>-1\<close>.\<close>

definition getu4 :: "string \<Rightarrow> nat option" where
  "getu4 s =
     (if length s < 6 \<or> s ! 0 \<noteq> bsl \<or> s ! 1 \<noteq> CHR ''u'' then None
      else case (hexval (s ! 2), hexval (s ! 3), hexval (s ! 4), hexval (s ! 5)) of
             (Some a, Some b, Some c, Some d) \<Rightarrow> Some (((a * 16 + b) * 16 + c) * 16 + d)
           | _ \<Rightarrow> None)"

text \<open>The escapes of one character that \<^verbatim>\<open>unquoteBytes\<close> and the scanner know.\<close>

definition simpleEscape :: "char \<Rightarrow> char option" where
  "simpleEscape e =
     (if e = dq \<or> e = bsl \<or> e = CHR ''/'' then Some e
      else if e = CHR ''b'' then Some (CHR 0x08)
      else if e = CHR ''f'' then Some (CHR 0x0C)
      else if e = CHR ''n'' then Some (CHR 0x0A)
      else if e = CHR ''r'' then Some (CHR 0x0D)
      else if e = CHR ''t'' then Some (CHR 0x09)
      else None)"

text \<open>
  A \<^verbatim>\<open>\uXXXX\<close> at the head of the input: a surrogate followed by the low surrogate
  of a valid pair is read with it, any other surrogate is U+FFFD.
\<close>

definition unicodeEscape :: "string \<Rightarrow> (string \<times> nat) option" where
  "unicodeEscape s =
     (case getu4 s of
        None \<Rightarrow> None
      | Some rr \<Rightarrow>
          if 0xD800 \<le> rr \<and> rr < 0xE000 then
            (case getu4 (drop 6 s) of
               None \<Rightarrow> Some (encodeRune RuneError, 6)
             | Some rr1 \<Rightarrow>
                 if rr < 0xDC00 \<and> 0xDC00 \<le> rr1 \<and> rr1 < 0xE000
                 then Some (encodeRune ((rr - 0xD800) * 1024 + (rr1 - 0xDC00) + 0x10000), 12)
                 else Some (encodeRune RuneError, 6))
          else Some (encodeRune rr, 6))"

text \<open>
  One step inside a string literal, at a byte that is not the closing quote: the bytes
  the literal contributes to the unquoted string and the number of bytes consumed. The
  scanner's checks (no control character, only the escapes of JSON) and the work of
  \<^verbatim>\<open>unquoteBytes\<close> (escapes, surrogate pairs, U+FFFD for invalid UTF-8) are done in
  one pass.
\<close>

definition stringStep :: "string \<Rightarrow> (string \<times> nat) option" where
  "stringStep s =
     (if s ! 0 = bsl then
        (if length s < 2 then None
         else if s ! 1 = CHR ''u'' then unicodeEscape s
         else case simpleEscape (s ! 1) of None \<Rightarrow> None | Some x \<Rightarrow> Some ([x], 2))
      else if byte (s ! 0) < 0x20 then None
      else if byte (s ! 0) < 0x80 then Some ([s ! 0], 1)
      else Some (encodeRune (fst (decodeRune s)), snd (decodeRune s)))"

lemma stringStep_pos: "s \<noteq> [] \<Longrightarrow> stringStep s = Some (out, n) \<Longrightarrow> 0 < n"
  using decodeRune_size_pos [of s]
  by (auto simp: stringStep_def unicodeEscape_def split: if_splits option.splits)

lemma stringStep_shorter:
  "s \<noteq> [] \<Longrightarrow> stringStep s = Some (out, n) \<Longrightarrow> length s - n < length s"
  using stringStep_pos [of s out n] by (cases s) auto

text \<open>The string literal after its opening quote: its value and the input after it.\<close>

function scanString :: "string \<Rightarrow> (string \<times> string) option" where
  "scanString s =
     (if s = [] then None
      else if s ! 0 = dq then Some ([], drop 1 s)
      else case stringStep s of
             None \<Rightarrow> None
           | Some (out, n) \<Rightarrow>
               (case scanString (drop n s) of
                  None \<Rightarrow> None
                | Some (v, rest) \<Rightarrow> Some (out @ v, rest)))"
  by pat_completeness auto
termination
  by (relation "measure length") (auto intro: stringStep_shorter)

declare scanString.simps [simp del]

text \<open>The number grammar of the scanner; the value of a number is never needed.\<close>

definition scanExponent :: "string \<Rightarrow> string option" where
  "scanExponent s =
     (case s of
        [] \<Rightarrow> Some s
      | c # s1 \<Rightarrow>
          if c = CHR ''e'' \<or> c = CHR ''E'' then
            (let s2 = (case s1 of [] \<Rightarrow> s1
                       | d # s1' \<Rightarrow> if d = CHR ''+'' \<or> d = CHR ''-'' then s1' else s1)
             in case s2 of [] \<Rightarrow> None
                | d # _ \<Rightarrow> if isDigit d then Some (dropWhile isDigit s2) else None)
          else Some s)"

definition scanFraction :: "string \<Rightarrow> string option" where
  "scanFraction s =
     (case s of
        [] \<Rightarrow> Some s
      | c # s1 \<Rightarrow>
          if c = CHR ''.'' then
            (case s1 of [] \<Rightarrow> None
             | d # _ \<Rightarrow> if isDigit d then scanExponent (dropWhile isDigit s1) else None)
          else scanExponent s)"

definition scanNumber :: "string \<Rightarrow> string option" where
  "scanNumber s =
     (let s1 = (case s of [] \<Rightarrow> s | c # s' \<Rightarrow> if c = CHR ''-'' then s' else s)
      in case s1 of
           [] \<Rightarrow> None
         | d # s2 \<Rightarrow>
             if d = CHR ''0'' then scanFraction s2
             else if isDigit d then scanFraction (dropWhile isDigit s2)
             else None)"

definition punctuation :: "char \<Rightarrow> token option" where
  "punctuation c =
     (if c = CHR ''{'' then Some TLBrace
      else if c = CHR ''}'' then Some TRBrace
      else if c = CHR ''['' then Some TLBracket
      else if c = CHR '']'' then Some TRBracket
      else if c = CHR '':'' then Some TColon
      else if c = CHR '','' then Some TComma
      else None)"

definition literal :: "string \<Rightarrow> (token \<times> string) option" where
  "literal s =
     (if take 4 s = ''true'' then Some (TTrue, drop 4 s)
      else if take 5 s = ''false'' then Some (TFalse, drop 5 s)
      else if take 4 s = ''null'' then Some (TNull, drop 4 s)
      else None)"

text \<open>The token at the head of a non-empty input that does not start with white space.\<close>

definition nextToken :: "string \<Rightarrow> (token \<times> string) option" where
  "nextToken s =
     (case punctuation (s ! 0) of
        Some t \<Rightarrow> Some (t, drop 1 s)
      | None \<Rightarrow>
          if s ! 0 = dq then
            (case scanString (drop 1 s) of
               None \<Rightarrow> None
             | Some (v, rest) \<Rightarrow> Some (TString v, rest))
          else if s ! 0 = CHR ''-'' \<or> isDigit (s ! 0) then
            (case scanNumber s of None \<Rightarrow> None | Some rest \<Rightarrow> Some (TNumber, rest))
          else literal s)"

lemma scanString_shorter: "scanString s = Some (v, rest) \<Longrightarrow> length rest < length s"
proof (induction s arbitrary: v rest rule: scanString.induct)
  case (1 s)
  show ?case
  proof (cases "s = [] \<or> s ! 0 = dq")
    case True
    with "1.prems" have "s \<noteq> []" and "rest = drop 1 s"
      by (simp_all add: scanString.simps [of s] split: if_splits)
    then show ?thesis
      by (cases s) simp_all
  next
    case False
    with "1.prems" obtain out n v' where
      step: "stringStep s = Some (out, n)" and rec: "scanString (drop n s) = Some (v', rest)"
      by (auto simp: scanString.simps [of s] split: option.splits)
    from False step rec have "length rest < length (drop n s)"
      by (intro "1.IH") auto
    then show ?thesis by simp
  qed
qed

lemma scanExponent_shorter: "scanExponent s = Some rest \<Longrightarrow> length rest \<le> length s"
  using length_dropWhile_le [of isDigit]
  by (auto simp: scanExponent_def Let_def le_Suc_eq split: list.splits if_splits
      intro: le_trans [OF length_dropWhile_le])

lemma scanFraction_shorter: "scanFraction s = Some rest \<Longrightarrow> length rest \<le> length s"
  by (auto simp: scanFraction_def split: list.splits if_splits
      dest!: scanExponent_shorter intro: le_trans [OF _ length_dropWhile_le] le_SucI)

lemma scanNumber_shorter: "scanNumber s = Some rest \<Longrightarrow> length rest < length s"
  by (auto simp: scanNumber_def Let_def less_Suc_eq_le split: list.splits if_splits
      dest!: scanFraction_shorter intro: le_trans [OF _ length_dropWhile_le] le_SucI)

lemma literal_shorter: "s \<noteq> [] \<Longrightarrow> literal s = Some (t, rest) \<Longrightarrow> length rest < length s"
  by (auto simp: literal_def split: if_splits)

lemma nextToken_shorter:
  assumes "s \<noteq> []" and "nextToken s = Some (t, rest)"
  shows "length rest < length s"
proof -
  have "\<And>v. scanString (drop 1 s) = Some (v, rest) \<Longrightarrow> length rest < length s"
    using scanString_shorter [of "drop 1 s"] by fastforce
  with assms scanNumber_shorter [of s rest] literal_shorter [of s t rest] show ?thesis
    by (auto simp: nextToken_def split: option.splits if_splits)
qed

text \<open>The scanner: the tokens of an input, \<open>None\<close> when a token is malformed.\<close>

function lex :: "string \<Rightarrow> token list option" where
  "lex s =
     (if s = [] then Some []
      else if isSpace (s ! 0) then lex (drop 1 s)
      else case nextToken s of
             None \<Rightarrow> None
           | Some (t, rest) \<Rightarrow>
               (case lex rest of None \<Rightarrow> None | Some ts \<Rightarrow> Some (t # ts)))"
  by pat_completeness auto
termination
  by (relation "measure length") (auto intro: nextToken_shorter)

declare lex.simps [simp del]

subsection \<open>json.Unmarshal(content, &arr): the grammar\<close>

datatype jvalue =
  JNull | JBool bool | JNumber | JString string
  | JArray "jvalue list" | JObject "(string \<times> jvalue) list"

text \<open>
  The scanner's parse stack: an array with the elements read so far (last first), an
  object with the members read so far, an object whose next member has its key.
\<close>

datatype frame =
  InArray "jvalue list"
  | InObject "(string \<times> jvalue) list"
  | InMember "(string \<times> jvalue) list" string

datatype phase =
  BeginValue | BeginValueOrEmpty | BeginStringOrEmpty | BeginString
  | ExpectColon | EndValue | EndTop jvalue

definition maxNestingDepth :: nat where
  "maxNestingDepth = 10000"

fun deliver :: "jvalue \<Rightarrow> frame list \<Rightarrow> (phase \<times> frame list) option" where
  "deliver v [] = Some (EndTop v, [])"
| "deliver v (InArray es # st) = Some (EndValue, InArray (v # es) # st)"
| "deliver v (InMember ms k # st) = Some (EndValue, InObject ((k, v) # ms) # st)"
| "deliver v (InObject ms # st) = None"

definition closeArray :: "frame list \<Rightarrow> (phase \<times> frame list) option" where
  "closeArray st = (case st of InArray es # st' \<Rightarrow> deliver (JArray (rev es)) st' | _ \<Rightarrow> None)"

definition closeObject :: "frame list \<Rightarrow> (phase \<times> frame list) option" where
  "closeObject st = (case st of InObject ms # st' \<Rightarrow> deliver (JObject (rev ms)) st' | _ \<Rightarrow> None)"

definition beginKey :: "string \<Rightarrow> frame list \<Rightarrow> (phase \<times> frame list) option" where
  "beginKey k st = (case st of InObject ms # st' \<Rightarrow> Some (ExpectColon, InMember ms k # st') | _ \<Rightarrow> None)"

definition push :: "phase \<Rightarrow> frame \<Rightarrow> frame list \<Rightarrow> (phase \<times> frame list) option" where
  "push ph f st = (if maxNestingDepth \<le> length st then None else Some (ph, f # st))"

definition beginValue :: "token \<Rightarrow> frame list \<Rightarrow> (phase \<times> frame list) option" where
  "beginValue t st =
     (case t of
        TLBracket \<Rightarrow> push BeginValueOrEmpty (InArray []) st
      | TLBrace \<Rightarrow> push BeginStringOrEmpty (InObject []) st
      | TString v \<Rightarrow> deliver (JString v) st
      | TNumber \<Rightarrow> deliver JNumber st
      | TTrue \<Rightarrow> deliver (JBool True) st
      | TFalse \<Rightarrow> deliver (JBool False) st
      | TNull \<Rightarrow> deliver JNull st
      | _ \<Rightarrow> None)"

definition step :: "phase \<times> frame list \<Rightarrow> token \<Rightarrow> (phase \<times> frame list) option" where
  "step ps t =
     (case ps of (ph, st) \<Rightarrow>
        (case ph of
           BeginValue \<Rightarrow> beginValue t st
         | BeginValueOrEmpty \<Rightarrow> (if t = TRBracket then closeArray st else beginValue t st)
         | BeginStringOrEmpty \<Rightarrow>
             (case t of TRBrace \<Rightarrow> closeObject st | TString k \<Rightarrow> beginKey k st | _ \<Rightarrow> None)
         | BeginString \<Rightarrow> (case t of TString k \<Rightarrow> beginKey k st | _ \<Rightarrow> None)
         | ExpectColon \<Rightarrow> (if t = TColon then Some (BeginValue, st) else None)
         | EndValue \<Rightarrow>
             (case t of
                TComma \<Rightarrow>
                  (case st of
                     InArray es # st' \<Rightarrow> Some (BeginValue, st)
                   | InObject ms # st' \<Rightarrow> Some (BeginString, st)
                   | _ \<Rightarrow> None)
              | TRBracket \<Rightarrow> closeArray st
              | TRBrace \<Rightarrow> closeObject st
              | _ \<Rightarrow> None)
         | EndTop v \<Rightarrow> None))"

fun run :: "phase \<times> frame list \<Rightarrow> token list \<Rightarrow> jvalue option" where
  "run ps [] = (case fst ps of EndTop v \<Rightarrow> Some v | _ \<Rightarrow> None)"
| "run ps (t # ts) = (case step ps t of None \<Rightarrow> None | Some ps' \<Rightarrow> run ps' ts)"

text \<open>The JSON value an input holds, \<open>None\<close> for a syntax error.\<close>

definition parse :: "string \<Rightarrow> jvalue option" where
  "parse data = (case lex data of None \<Rightarrow> None | Some ts \<Rightarrow> run (BeginValue, []) ts)"

subsection \<open>json.Unmarshal(content, &arr): filling the slice\<close>

text \<open>
  The decoder matches an object key to a struct field by name, ignoring case under
  Unicode simple folding. \<open>foldName\<close> folds what can fold to an ASCII letter: the ASCII
  letters, U+017F (to S) and U+212A (to K); every other rune folds to a rune outside
  ASCII and is left as it is.
\<close>

fun foldName :: "string \<Rightarrow> string" where
  "foldName [] = []"
| "foldName (c # cs) =
     (if c = CHR 0xC5 \<and> take 1 cs = [CHR 0xBF] then CHR ''S'' # foldName (drop 1 cs)
      else if c = CHR 0xE2 \<and> take 2 cs = [CHR 0x84, CHR 0xAA] then CHR ''K'' # foldName (drop 2 cs)
      else (if 0x61 \<le> byte c \<and> byte c \<le> 0x7A then char_of (byte c - 0x20) else c) # foldName cs)"

datatype field = FName | FPhone | FLinkedIn | FTimestamp

definition fieldOf :: "string \<Rightarrow> field option" where
  "fieldOf key =
     (let k = foldName key in
      if k = ''NAME'' then Some FName
      else if k = ''PHONE'' then Some FPhone
      else if k = ''LINKEDIN'' then Some FLinkedIn
      else if k = ''TIMESTAMP'' then Some FTimestamp
      else None)"

fun setField :: "field \<Rightarrow> string \<Rightarrow> Submission \<Rightarrow> Submission" where
  "setField FName v r = r\<lparr>Name := v\<rparr>"
| "setField FPhone v r = r\<lparr>Phone := v\<rparr>"
| "setField FLinkedIn v r = r\<lparr>LinkedIn := v\<rparr>"
| "setField FTimestamp v r = r\<lparr>Timestamp := v\<rparr>"

text \<open>
  The members of an object, in order, into a struct: a key that names no field is
  skipped, \<^verbatim>\<open>null\<close> leaves the field as it is, a string sets it, and any other value
  is an \<^verbatim>\<open>UnmarshalTypeError\<close>, with which \<^verbatim>\<open>Unmarshal\<close> returns an error.
\<close>

fun object :: "(string \<times> jvalue) list \<Rightarrow> Submission \<Rightarrow> Submission option" where
  "object [] r = Some r"
| "object ((k, v) # ms) r =
     (case fieldOf k of
        None \<Rightarrow> object ms r
      | Some f \<Rightarrow>
          (case v of
             JString x \<Rightarrow> object ms (setField f x r)
           | JNull \<Rightarrow> object ms r
           | _ \<Rightarrow> None))"

definition zeroSubmission :: Submission where
  "zeroSubmission = \<lparr>Name = [], Phone = [], LinkedIn = [], Timestamp = []\<rparr>"

definition element :: "jvalue \<Rightarrow> Submission option" where
  "element v =
     (case v of
        JObject ms \<Rightarrow> object ms zeroSubmission
      | JNull \<Rightarrow> Some zeroSubmission
      | _ \<Rightarrow> None)"

fun array :: "jvalue list \<Rightarrow> Submission list option" where
  "array [] = Some []"
| "array (v # vs) =
     (case element v of
        None \<Rightarrow> None
      | Some r \<Rightarrow> (case array vs of None \<Rightarrow> None | Some rs \<Rightarrow> Some (r # rs)))"

text \<open>
  \<^verbatim>\<open>json.Unmarshal(content, &arr)\<close> with \<^verbatim>\<open>arr\<close> a nil \<^verbatim>\<open>[]Submission\<close>: \<open>None\<close> when it
  returns an error, else the slice (\<^verbatim>\<open>null\<close> leaves it nil, that is, empty).
\<close>

definition Unmarshal :: "string \<Rightarrow> Submission list option" where
  "Unmarshal data =
     (case parse data of
        None \<Rightarrow> None
      | Some (JArray vs) \<Rightarrow> array vs
      | Some JNull \<Rightarrow> Some []
      | Some _ \<Rightarrow> None)"

section \<open>The program\<close>

subsection \<open>Configuration, requests and replies\<close>

text \<open>The package variables that \<^verbatim>\<open>loadConfigFromEnv\<close> sets and the requests use.\<close>

record config =
  githubRepo :: string
  githubFilePath :: string
  githubBranch :: string

text \<open>
  \<^verbatim>\<open>githubContentResponse\<close>. The field \<^verbatim>\<open>Content\<close> stands for what
  \<^verbatim>\<open>base64.StdEncoding.DecodeString\<close> makes of it once the line breaks are removed:
  the bytes, or \<open>None\<close> when it is not base64.
\<close>

record githubContentResponse =
  respContent :: "string option"
  respEncoding :: string
  respSHA :: string

text \<open>
  \<^verbatim>\<open>githubUpdateRequest\<close> as it is marshalled: \<^verbatim>\<open>Content\<close> stands for the bytes whose
  base64 text is sent, and \<^verbatim>\<open>SHA\<close>, tagged \<^verbatim>\<open>omitempty\<close>, is \<open>None\<close> when the key
  is left out of the payload.
\<close>

record githubUpdateRequest =
  reqMessage :: string
  reqContent :: string
  reqBranch :: string
  reqSHA :: "string option"
  reqCommitterName :: string
  reqCommitterEmail :: string

text \<open>
  What building and sending a request gives: an error (of
  \<^verbatim>\<open>http.NewRequestWithContext\<close> or of \<^verbatim>\<open>http.DefaultClient.Do\<close>), or a response with
  its status code and body.
\<close>

datatype 'b response = DoError | Response nat 'b

text \<open>
  The HTTP client, over any state \<open>'w\<close> of the world outside the program. The body of
  a GET response is what \<^verbatim>\<open>json.NewDecoder(resp.Body).Decode(&out)\<close> reads from it,
  \<open>None\<close> when that fails.
\<close>

record 'w client =
  doGet :: "string \<Rightarrow> 'w \<Rightarrow> githubContentResponse option response \<times> 'w"
  doPut :: "string \<Rightarrow> githubUpdateRequest \<Rightarrow> 'w \<Rightarrow> unit response \<times> 'w"

text \<open>Every request the program builds is recorded, in order.\<close>

datatype call = Fetch string | Commit string githubUpdateRequest

type_synonym 'w io = "'w \<times> call list"

datatype error =
  ErrRequest
  | errNotFound
  | ErrGetFailed nat
  | ErrDecode
  | ErrUnexpectedEncoding string
  | ErrBase64
  | ErrPutFailed nat

subsection \<open>getGitHubFile and putGitHubFile\<close>

definition getURL :: "config \<Rightarrow> string" where
  "getURL cfg =
     ''https://api.github.com/repos/'' @ githubRepo cfg @ ''/contents/'' @ githubFilePath cfg
       @ ''?ref='' @ githubBranch cfg"

definition putURL :: "config \<Rightarrow> string" where
  "putURL cfg =
     ''https://api.github.com/repos/'' @ githubRepo cfg @ ''/contents/'' @ githubFilePath cfg"

definition getGitHubFile :: "config \<Rightarrow> 'w client \<Rightarrow> 'w io \<Rightarrow> (error + string \<times> string) \<times> 'w io" where
  "getGitHubFile cfg cl io =
     (case io of (w, calls) \<Rightarrow>
        (case doGet cl (getURL cfg) w of (resp, w') \<Rightarrow>
           ((case resp of
               DoError \<Rightarrow> Inl ErrRequest
             | Response code body \<Rightarrow>
                 if code = 404 then Inl errNotFound
                 else if 300 \<le> code then Inl (ErrGetFailed code)
                 else (case body of
                         None \<Rightarrow> Inl ErrDecode
                       | Some out \<Rightarrow>
                           if respEncoding out \<noteq> ''base64''
                           then Inl (ErrUnexpectedEncoding (respEncoding out))
                           else (case respContent out of
                                   None \<Rightarrow> Inl ErrBase64
                                 | Some decoded \<Rightarrow> Inr (decoded, respSHA out)))),
            (w', calls @ [Fetch (getURL cfg)]))))"

text \<open>The request body \<^verbatim>\<open>putGitHubFile\<close> builds; \<open>now\<close> is the clock's reading.\<close>

definition updateRequest :: "config \<Rightarrow> string \<Rightarrow> string \<Rightarrow> string \<Rightarrow> githubUpdateRequest" where
  "updateRequest cfg now content sha =
     \<lparr>reqMessage = ''chore: append quiz login submission ('' @ now @ '')'',
      reqContent = content,
      reqBranch = githubBranch cfg,
      reqSHA = (if sha \<noteq> [] then Some sha else None),
      reqCommitterName = ''React Quiz Bot'',
      reqCommitterEmail = ''noreply@example.com''\<rparr>"

definition putGitHubFile ::
  "config \<Rightarrow> 'w client \<Rightarrow> string \<Rightarrow> string \<Rightarrow> string \<Rightarrow> 'w io \<Rightarrow> (error + unit) \<times> 'w io" where
  "putGitHubFile cfg cl now content sha io =
     (case io of (w, calls) \<Rightarrow>
        (let body = updateRequest cfg now content sha in
         case doPut cl (putURL cfg) body w of (resp, w') \<Rightarrow>
           ((case resp of
               DoError \<Rightarrow> Inl ErrRequest
             | Response code u \<Rightarrow> if 300 \<le> code then Inl (ErrPutFailed code) else Inr ()),
            (w', calls @ [Commit (putURL cfg) body]))))"

subsection \<open>appendSubmissionToGitHub\<close>

text \<open>
  The slice the program goes on with after \<^verbatim>\<open>json.Unmarshal(content, &arr)\<close>: on an
  error it is reset to the empty slice.
\<close>

definition ledger :: "string \<Rightarrow> Submission list" where
  "ledger content = (case Unmarshal content of None \<Rightarrow> [] | Some arr \<Rightarrow> arr)"

definition appendSubmissionToGitHub ::
  "config \<Rightarrow> 'w client \<Rightarrow> string \<Rightarrow> Submission \<Rightarrow> 'w io \<Rightarrow> (error + unit) \<times> 'w io" where
  "appendSubmissionToGitHub cfg cl now item io =
     (case getGitHubFile cfg cl io of (got, io1) \<Rightarrow>
        (case (case got of
                 Inl err \<Rightarrow> if err = errNotFound then Inr (''[]'', []) else Inl err
               | Inr (content, sha) \<Rightarrow> Inr (content, sha)) of
           Inl err \<Rightarrow> (Inl err, io1)
         | Inr (content, sha) \<Rightarrow>
             (let arr = ledger content;
                  arr = arr @ [item];
                  updated = MarshalIndent arr
              in putGitHubFile cfg cl now updated sha io1)))"

subsection \<open>The handlers\<close>

text \<open>
  A request: its method and what \<^verbatim>\<open>decoder.Decode(&in)\<close> (with unknown fields
  disallowed) makes of its body: the error's text, or the struct \<^verbatim>\<open>in\<close>, where a field
  the body does not have is empty. Of a response, the status and the body are kept.
\<close>

record loginInput =
  inName :: string
  inPhone :: string
  inLinkedIn :: string

record request =
  Method :: string
  Body :: "string + loginInput"

record reply =
  Status :: nat
  Text :: string

text \<open>\<^verbatim>\<open>http.Error\<close> writes the message and a line break.\<close>

definition httpError :: "string \<Rightarrow> nat \<Rightarrow> reply" where
  "httpError msg code = \<lparr>Status = code, Text = msg @ [CHR 0x0A]\<rparr>"

definition saved :: reply where
  "saved = \<lparr>Status = 201,
            Text = ''{'' @ [dq] @ ''message'' @ [dq] @ '':'' @ [dq] @ ''Submission saved'' @ [dq]
                   @ '','' @ [dq] @ ''ok'' @ [dq] @ '':true}'' @ [CHR 0x0A]\<rparr>"

text \<open>
  \<open>now\<close> is the clock's reading, in RFC 3339, when the submission is built, \<open>later\<close> its
  reading when the commit message is built.
\<close>

definition loginHandler ::
  "config \<Rightarrow> 'w client \<Rightarrow> string \<Rightarrow> string \<Rightarrow> request \<Rightarrow> 'w io \<Rightarrow> reply \<times> 'w io" where
  "loginHandler cfg cl now later r io =
     (if Method r \<noteq> ''POST'' then (httpError ''method not allowed'' 405, io)
      else case Body r of
             Inl err \<Rightarrow> (httpError (''invalid json: '' @ err) 400, io)
           | Inr inp \<Rightarrow>
               if TrimSpace (inName inp) = [] \<or> TrimSpace (inPhone inp) = []
               then (httpError ''name and phone are required'' 400, io)
               else let submission =
                          \<lparr>Name = TrimSpace (inName inp),
                           Phone = TrimSpace (inPhone inp),
                           LinkedIn = TrimSpace (inLinkedIn inp),
                           Timestamp = now\<rparr>
                    in case appendSubmissionToGitHub cfg cl later submission io of
                         (Inl err, io') \<Rightarrow> (httpError ''failed to update GitHub file'' 500, io')
                       | (Inr u, io') \<Rightarrow> (saved, io'))"

definition withCORS :: "(request \<Rightarrow> 'w io \<Rightarrow> reply \<times> 'w io) \<Rightarrow> request \<Rightarrow> 'w io \<Rightarrow> reply \<times> 'w io" where
  "withCORS next r io =
     (if Method r = ''OPTIONS'' then (\<lparr>Status = 204, Text = []\<rparr>, io)
      else next r io)"

text \<open>The route \<^verbatim>\<open>/api/login\<close> as \<^verbatim>\<open>main\<close> registers it.\<close>

definition apiLogin ::
  "config \<Rightarrow> 'w client \<Rightarrow> string \<Rightarrow> string \<Rightarrow> request \<Rightarrow> 'w io \<Rightarrow> reply \<times> 'w io" where
  "apiLogin cfg cl now later = withCORS (loginHandler cfg cl now later)"

section \<open>The remote store\<close>

text \<open>
  Modelled from the spec: the remote content store is not part of the program. It holds
  one blob, the ledger file, with a version token that changes on every commit; it
  accepts a commit only when the version supplied is its current one, and a commit with
  no version only while the blob does not exist; a mismatch is answered 409, a missing
  version 422. Other writers are a script: after each fetch it answers, the next entry
  of \<open>rivals\<close> is played, and \<open>Some c\<close> there is another writer committing the content
  \<open>c\<close>.
\<close>

record store =
  blob :: "(string \<times> nat) option"
  rivals :: "string option list"

definition shaOf :: "nat \<Rightarrow> string" where
  "shaOf n = ''rev'' @ replicate n (CHR ''+'')"

definition rivalCommit :: "string \<Rightarrow> store \<Rightarrow> store" where
  "rivalCommit c w =
     w\<lparr>blob := Some (c, case blob w of None \<Rightarrow> 0 | Some (old, n) \<Rightarrow> Suc n)\<rparr>"

definition playRival :: "store \<Rightarrow> store" where
  "playRival w =
     (case rivals w of
        [] \<Rightarrow> w
      | None # rs \<Rightarrow> w\<lparr>rivals := rs\<rparr>
      | Some c # rs \<Rightarrow> rivalCommit c (w\<lparr>rivals := rs\<rparr>))"

definition storeGet :: "string \<Rightarrow> store \<Rightarrow> githubContentResponse option response \<times> store" where
  "storeGet url w =
     ((case blob w of
         None \<Rightarrow> Response 404 None
       | Some (c, n) \<Rightarrow>
           Response 200 (Some \<lparr>respContent = Some c, respEncoding = ''base64'', respSHA = shaOf n\<rparr>)),
      playRival w)"

definition storePut :: "string \<Rightarrow> githubUpdateRequest \<Rightarrow> store \<Rightarrow> unit response \<times> store" where
  "storePut url body w =
     (case blob w of
        None \<Rightarrow>
          (case reqSHA body of
             None \<Rightarrow> (Response 201 (), w\<lparr>blob := Some (reqContent body, 0)\<rparr>)
           | Some v \<Rightarrow> (Response 409 (), w))
      | Some (c, n) \<Rightarrow>
          (case reqSHA body of
             None \<Rightarrow> (Response 422 (), w)
           | Some v \<Rightarrow>
               if v = shaOf n then (Response 200 (), w\<lparr>blob := Some (reqContent body, Suc n)\<rparr>)
               else (Response 409 (), w)))"

definition github :: "store client" where
  "github = \<lparr>doGet = storeGet, doPut = storePut\<rparr>"

text \<open>The ledger the store holds, as the program reads it: none is the empty ledger.\<close>

definition stored :: "store \<Rightarrow> Submission list" where
  "stored w = (case blob w of None \<Rightarrow> [] | Some (c, n) \<Rightarrow> ledger c)"

text \<open>Appends one after the other, each with its clock reading; the results in order.\<close>

fun appendAll ::
  "config \<Rightarrow> 'w client \<Rightarrow> (string \<times> Submission) list \<Rightarrow> 'w io \<Rightarrow> (error + unit) list \<times> 'w io" where
  "appendAll cfg cl [] io = ([], io)"
| "appendAll cfg cl ((now, item) # rest) io =
     (case appendSubmissionToGitHub cfg cl now item io of (r, io1) \<Rightarrow>
        (case appendAll cfg cl rest io1 of (rs, io2) \<Rightarrow> (r # rs, io2)))"

section \<open>Notions used by the properties\<close>

text \<open>A record whose four strings are valid UTF-8.\<close>

definition validSubmission :: "Submission \<Rightarrow> bool" where
  "validSubmission r \<longleftrightarrow>
     ValidString (Name r) \<and> ValidString (Phone r) \<and> ValidString (LinkedIn r)
     \<and> ValidString (Timestamp r)"

text \<open>The JSON value that \<^verbatim>\<open>MarshalIndent\<close> writes for a record.\<close>

definition jsubmission :: "Submission \<Rightarrow> jvalue" where
  "jsubmission r =
     JObject ([(''name'', JString (Name r)), (''phone'', JString (Phone r))]
              @ (if LinkedIn r = [] then [] else [(''linkedin'', JString (LinkedIn r))])
              @ [(''timestamp'', JString (Timestamp r))])"

text \<open>The scanner and the grammar run together, from any state of the grammar.\<close>

definition feed :: "phase \<times> frame list \<Rightarrow> string \<Rightarrow> jvalue option" where
  "feed ps s = (case lex s of None \<Rightarrow> None | Some ts \<Rightarrow> run ps ts)"

section \<open>Examples used by the closed theorems\<close>

definition exampleConfig :: config where
  "exampleConfig =
     \<lparr>githubRepo = ''owner/repo'', githubFilePath = ''data/submissions.json'',
      githubBranch = ''main''\<rparr>"

definition emptyStore :: store where
  "emptyStore = \<lparr>blob = None, rivals = []\<rparr>"

definition ada :: Submission where
  "ada = \<lparr>Name = ''Ada Lovelace'', Phone = ''555-0100'', LinkedIn = [], Timestamp = ''2024-05-01T10:00:00Z''\<rparr>"

definition bob :: Submission where
  "bob = \<lparr>Name = ''Bob <b&b>'', Phone = ''555-0101'', LinkedIn = ''https://www.linkedin.com/in/bob'',
           Timestamp = ''2024-05-01T10:00:05Z''\<rparr>"

definition blankName :: request where
  "blankName = \<lparr>Method = ''POST'', Body = Inr \<lparr>inName = ''  '', inPhone = ''555-0100'', inLinkedIn = []\<rparr>\<rparr>"

definition spacedLink :: request where
  "spacedLink =
     \<lparr>Method = ''POST'',
      Body = Inr \<lparr>inName = ''Ada Lovelace'', inPhone = ''555-0100'', inLinkedIn = '' in/ada''\<rparr>\<rparr>"

definition adaLinked :: Submission where
  "adaLinked = \<lparr>Name = ''Ada Lovelace'', Phone = ''555-0100'', LinkedIn = ''in/ada'',
                 Timestamp = ''2024-05-01T10:00:00Z''\<rparr>"

definition preflight :: request where
  "preflight = \<lparr>Method = ''OPTIONS'', Body = Inl ''EOF''\<rparr>"

definition getRequest :: request where
  "getRequest = \<lparr>Method = ''GET'', Body = Inl ''EOF''\<rparr>"

section \<open>UTF-8: encoding a decoded rune gives its bytes back\<close>

lemma decodeRune_ascii: "s \<noteq> [] \<Longrightarrow> byte (s ! 0) < 0x80 \<Longrightarrow> decodeRune s = (byte (s ! 0), 1)"
  by (simp add: decodeRune_def)

lemma decodeRune_cases:
  assumes "s \<noteq> []" and "\<not> invalidAt s"
  shows "(byte (s ! 0) < 0x80 \<and> decodeRune s = (byte (s ! 0), 1))
       \<or> (0xC2 \<le> byte (s ! 0) \<and> byte (s ! 0) < 0xE0 \<and> 2 \<le> length s
            \<and> acceptLo (byte (s ! 0)) \<le> byte (s ! 1) \<and> byte (s ! 1) \<le> acceptHi (byte (s ! 0))
            \<and> decodeRune s = ((byte (s ! 0) mod 32) * 64 + byte (s ! 1) mod 64, 2))
       \<or> (0xE0 \<le> byte (s ! 0) \<and> byte (s ! 0) < 0xF0 \<and> 3 \<le> length s
            \<and> acceptLo (byte (s ! 0)) \<le> byte (s ! 1) \<and> byte (s ! 1) \<le> acceptHi (byte (s ! 0))
            \<and> 0x80 \<le> byte (s ! 2) \<and> byte (s ! 2) \<le> 0xBF
            \<and> decodeRune s = ((byte (s ! 0) mod 16) * 4096 + (byte (s ! 1) mod 64) * 64 + byte (s ! 2) mod 64, 3))
       \<or> (0xF0 \<le> byte (s ! 0) \<and> byte (s ! 0) \<le> 0xF4 \<and> 4 \<le> length s
            \<and> acceptLo (byte (s ! 0)) \<le> byte (s ! 1) \<and> byte (s ! 1) \<le> acceptHi (byte (s ! 0))
            \<and> 0x80 \<le> byte (s ! 2) \<and> byte (s ! 2) \<le> 0xBF
            \<and> 0x80 \<le> byte (s ! 3) \<and> byte (s ! 3) \<le> 0xBF
            \<and> decodeRune s = ((byte (s ! 0) mod 8) * 262144 + (byte (s ! 1) mod 64) * 4096
                   + (byte (s ! 2) mod 64) * 64 + byte (s ! 3) mod 64, 4))"
proof -
  define b0 where "b0 = byte (s ! 0)"
  define b1 where "b1 = byte (s ! 1)"
  define b2 where "b2 = byte (s ! 2)"
  define b3 where "b3 = byte (s ! 3)"
  define n where "n = length s"
  note defs = b0_def [symmetric] b1_def [symmetric] b2_def [symmetric] b3_def [symmetric] n_def [symmetric]
  from assms show ?thesis
    unfolding invalidAt_def decodeRune_def Let_def RuneError_def defs
    by (simp add: not_less split: if_splits)
qed

lemma split2: 
  fixes x y :: nat assumes "y < 64"
  shows "(x * 64 + y) div 64 = x" "(x * 64 + y) mod 64 = y"
  using assms by simp_all

lemma off32: "(192 + x) mod 32 = (x::nat) mod 32"
proof -
  have "(192 + x) mod 32 = (32 * 6 + x) mod 32" by simp
  also have "\<dots> = x mod 32" by (simp only: mod_mult_self4)
  finally show ?thesis .
qed

lemma off64: "(128 + y) mod 64 = (y::nat) mod 64"
proof -
  have "(128 + y) mod 64 = (64 * 2 + y) mod 64" by simp
  also have "\<dots> = y mod 64" by (simp only: mod_mult_self4)
  finally show ?thesis .
qed

lemma off16: "(224 + x) mod 16 = (x::nat) mod 16"
proof -
  have "(224 + x) mod 16 = (16 * 14 + x) mod 16" by simp
  also have "\<dots> = x mod 16" by (simp only: mod_mult_self4)
  finally show ?thesis .
qed

lemma off8: "(240 + x) mod 8 = (x::nat) mod 8"
proof -
  have "(240 + x) mod 8 = (8 * 30 + x) mod 8" by simp
  also have "\<dots> = x mod 8" by (simp only: mod_mult_self4)
  finally show ?thesis .
qed

lemma split3:
  fixes x y z :: nat assumes "y < 64" "z < 64"
  shows "(x * 4096 + y * 64 + z) div 4096 = x" "(x * 4096 + y * 64 + z) div 64 mod 64 = y"
        "(x * 4096 + y * 64 + z) mod 64 = z"
proof -
  have e: "x * 4096 + y * 64 + z = (x * 64 + y) * 64 + z" by simp
  have d: "(x * 4096 + y * 64 + z) div 64 = x * 64 + y"
    unfolding e using assms by simp
  show "(x * 4096 + y * 64 + z) div 64 mod 64 = y"
    unfolding d using assms by simp
  show "(x * 4096 + y * 64 + z) mod 64 = z"
    unfolding e using assms by (simp only: mod_mult_self3 mod_less)
  have "(x * 4096 + y * 64 + z) div 4096 = (x * 4096 + y * 64 + z) div 64 div 64"
    by (simp add: div_mult2_eq)
  then show "(x * 4096 + y * 64 + z) div 4096 = x"
    unfolding d using assms by simp
qed

lemma split4:
  fixes x y z u :: nat assumes "y < 64" "z < 64" "u < 64"
  shows "(x * 262144 + y * 4096 + z * 64 + u) div 262144 = x"
        "(x * 262144 + y * 4096 + z * 64 + u) div 4096 mod 64 = y"
        "(x * 262144 + y * 4096 + z * 64 + u) div 64 mod 64 = z"
        "(x * 262144 + y * 4096 + z * 64 + u) mod 64 = u"
proof -
  let ?r = "x * 262144 + y * 4096 + z * 64 + u"
  have e: "?r = (x * 4096 + y * 64 + z) * 64 + u" by simp
  have d: "?r div 64 = x * 4096 + y * 64 + z"
    unfolding e using assms by simp
  show "?r mod 64 = u" unfolding e using assms by (simp only: mod_mult_self3 mod_less)
  show "?r div 64 mod 64 = z" unfolding d using assms by (simp add: split3)
  have "?r div 4096 = ?r div 64 div 64" by (simp add: div_mult2_eq)
  then have d2: "?r div 4096 = x * 64 + y"
    unfolding d using assms split3 [of y z x] by (simp add: div_mult2_eq)
  show "?r div 4096 mod 64 = y" unfolding d2 using assms by simp
  have "?r div 262144 = ?r div 4096 div 64" by (simp add: div_mult2_eq)
  then show "?r div 262144 = x" unfolding d2 using assms by simp
qed


lemma take_nths:
  "s \<noteq> [] \<Longrightarrow> take 1 s = [s ! 0]"
  "2 \<le> length s \<Longrightarrow> take 2 s = [s ! 0, s ! 1]"
  "3 \<le> length s \<Longrightarrow> take 3 s = [s ! 0, s ! 1, s ! 2]"
  "4 \<le> length s \<Longrightarrow> take 4 s = [s ! 0, s ! 1, s ! 2, s ! 3]"
proof -
  show "s \<noteq> [] \<Longrightarrow> take 1 s = [s ! 0]"
    by (cases s) simp_all
  show "2 \<le> length s \<Longrightarrow> take 2 s = [s ! 0, s ! 1]"
    by (cases s; cases "tl s") (simp_all add: numeral_2_eq_2)
  show "3 \<le> length s \<Longrightarrow> take 3 s = [s ! 0, s ! 1, s ! 2]"
    by (cases s; cases "tl s"; cases "tl (tl s)") (simp_all add: numeral_3_eq_3 numeral_2_eq_2)
  show "4 \<le> length s \<Longrightarrow> take 4 s = [s ! 0, s ! 1, s ! 2, s ! 3]"
    by (cases s; cases "tl s"; cases "tl (tl s)"; cases "tl (tl (tl s))")
      (simp_all add: numeral_3_eq_3 numeral_2_eq_2 eval_nat_numeral)
qed

lemma encode_decode:
  assumes "s \<noteq> []" and "\<not> invalidAt s"
  shows "encodeRune (fst (decodeRune s)) = take (snd (decodeRune s)) s"
proof -
  let ?b0 = "byte (s ! 0)" and ?b1 = "byte (s ! 1)" and ?b2 = "byte (s ! 2)" and ?b3 = "byte (s ! 3)"
  define y where "y = ?b1 - 128"
  define z where "z = ?b2 - 128"
  define u where "u = ?b3 - 128"
  consider
    (1) "?b0 < 0x80" "decodeRune s = (?b0, 1)"
  | (2) "0xC2 \<le> ?b0" "?b0 < 0xE0" "2 \<le> length s" "acceptLo ?b0 \<le> ?b1" "?b1 \<le> acceptHi ?b0"
        "decodeRune s = ((?b0 mod 32) * 64 + ?b1 mod 64, 2)"
  | (3) "0xE0 \<le> ?b0" "?b0 < 0xF0" "3 \<le> length s" "acceptLo ?b0 \<le> ?b1" "?b1 \<le> acceptHi ?b0"
        "0x80 \<le> ?b2" "?b2 \<le> 0xBF"
        "decodeRune s = ((?b0 mod 16) * 4096 + (?b1 mod 64) * 64 + ?b2 mod 64, 3)"
  | (4) "0xF0 \<le> ?b0" "?b0 \<le> 0xF4" "4 \<le> length s" "acceptLo ?b0 \<le> ?b1" "?b1 \<le> acceptHi ?b0"
        "0x80 \<le> ?b2" "?b2 \<le> 0xBF" "0x80 \<le> ?b3" "?b3 \<le> 0xBF"
        "decodeRune s = ((?b0 mod 8) * 262144 + (?b1 mod 64) * 4096 + (?b2 mod 64) * 64 + ?b3 mod 64, 4)"
    using decodeRune_cases [OF assms] by blast
  then show ?thesis
  proof cases
    case 1
    then show ?thesis
      using assms(1) take_nths(1) [of s] by (simp add: encodeRune_def)
  next
    case 2
    define x where "x = ?b0 - 192"
    have b0: "?b0 = 192 + x" "x < 32" "2 \<le> x" and b1: "?b1 = 128 + y" "y < 64"
      using 2 by (auto simp: x_def y_def acceptLo_def acceptHi_def split: if_splits)
    have r: "fst (decodeRune s) = x * 64 + y"
      using 2(6) b0 b1 by (simp add: off32 off64)
    have "encodeRune (x * 64 + y) = [char_of (192 + x), char_of (128 + y)]"
      using b0 b1 by (simp add: encodeRune_def split2)
    also have "\<dots> = [s ! 0, s ! 1]"
      by (simp flip: b0(1) b1(1))
    finally show ?thesis
      using 2(3,6) r by (simp add: take_nths)
  next
    case 3
    define x where "x = ?b0 - 224"
    have b0: "?b0 = 224 + x" "x < 16" and b1: "?b1 = 128 + y" "y < 64"
      and b2: "?b2 = 128 + z" "z < 64"
      and lo: "x = 0 \<Longrightarrow> 32 \<le> y" and hi: "x = 13 \<Longrightarrow> y < 32"
      using 3 by (auto simp: x_def y_def z_def acceptLo_def acceptHi_def split: if_splits)
    let ?r = "x * 4096 + y * 64 + z"
    have r: "fst (decodeRune s) = ?r"
      using 3(8) b0 b1 b2 by (simp add: off16 off64)
    have big: "\<not> ?r \<le> 0x7FF"
      using lo by (cases "x = 0") auto
    have small: "?r \<le> 0xFFFF"
      using b0 b1 b2 by simp
    have nosur: "\<not> (0xD800 \<le> ?r \<and> ?r \<le> 0xDFFF)"
      using hi b0 b1 b2 by (cases "x = 13") auto
    have keep: "(if 0x10FFFF < ?r \<or> (0xD800 \<le> ?r \<and> ?r \<le> 0xDFFF) then RuneError else ?r) = ?r"
      using nosur small by auto
    have "\<not> ?r \<le> 0x7F"
      using big by simp
    then have "encodeRune ?r = [char_of (224 + x), char_of (128 + y), char_of (128 + z)]"
      unfolding encodeRune_def Let_def keep
      using big small b1 b2 split3 [of y z x] by simp
    also have "\<dots> = [s ! 0, s ! 1, s ! 2]"
      by (simp flip: b0(1) b1(1) b2(1))
    finally show ?thesis
      using 3(3,8) r by (simp add: take_nths)
  next
    case 4
    define x where "x = ?b0 - 240"
    have b0: "?b0 = 240 + x" "x \<le> 4" and b1: "?b1 = 128 + y" "y < 64"
      and b2: "?b2 = 128 + z" "z < 64" and b3: "?b3 = 128 + u" "u < 64"
      and lo: "x = 0 \<Longrightarrow> 16 \<le> y" and hi: "x = 4 \<Longrightarrow> y < 16"
      using 4 by (auto simp: x_def y_def z_def u_def acceptLo_def acceptHi_def split: if_splits)
    let ?r = "x * 262144 + y * 4096 + z * 64 + u"
    have r: "fst (decodeRune s) = ?r"
      using 4(10) b0 b1 b2 b3 by (simp add: off8 off64)
    have big: "\<not> ?r \<le> 0xFFFF"
      using lo by (cases "x = 0") auto
    have small: "\<not> 0x10FFFF < ?r"
      using hi b0 b1 b2 b3 by (cases "x = 4") auto
    have keep: "(if 0x10FFFF < ?r \<or> (0xD800 \<le> ?r \<and> ?r \<le> 0xDFFF) then RuneError else ?r) = ?r"
      using small big by auto
    have "\<not> ?r \<le> 0x7F" and "\<not> ?r \<le> 0x7FF"
      using big by simp_all
    then have "encodeRune ?r = [char_of (240 + x), char_of (128 + y), char_of (128 + z), char_of (128 + u)]"
      unfolding encodeRune_def Let_def keep
      using big b1 b2 b3 split4 [of y z u x] by simp
    also have "\<dots> = [s ! 0, s ! 1, s ! 2, s ! 3]"
      by (simp flip: b0(1) b1(1) b2(1) b3(1))
    finally show ?thesis
      using 4(3,10) r by (simp add: take_nths)
  qed
qed


lemma decodeRune_take:
  assumes "s \<noteq> []" and "\<not> invalidAt s"
  shows "decodeRune (take (snd (decodeRune s)) s @ t) = decodeRune s"
proof -
  let ?b0 = "byte (s ! 0)" and ?b1 = "byte (s ! 1)" and ?b2 = "byte (s ! 2)" and ?b3 = "byte (s ! 3)"
  consider
    (1) "?b0 < 0x80" "decodeRune s = (?b0, 1)"
  | (2) "0xC2 \<le> ?b0" "?b0 < 0xE0" "2 \<le> length s" "acceptLo ?b0 \<le> ?b1" "?b1 \<le> acceptHi ?b0"
        "decodeRune s = ((?b0 mod 32) * 64 + ?b1 mod 64, 2)"
  | (3) "0xE0 \<le> ?b0" "?b0 < 0xF0" "3 \<le> length s" "acceptLo ?b0 \<le> ?b1" "?b1 \<le> acceptHi ?b0"
        "0x80 \<le> ?b2" "?b2 \<le> 0xBF"
        "decodeRune s = ((?b0 mod 16) * 4096 + (?b1 mod 64) * 64 + ?b2 mod 64, 3)"
  | (4) "0xF0 \<le> ?b0" "?b0 \<le> 0xF4" "4 \<le> length s" "acceptLo ?b0 \<le> ?b1" "?b1 \<le> acceptHi ?b0"
        "0x80 \<le> ?b2" "?b2 \<le> 0xBF" "0x80 \<le> ?b3" "?b3 \<le> 0xBF"
        "decodeRune s = ((?b0 mod 8) * 262144 + (?b1 mod 64) * 4096 + (?b2 mod 64) * 64 + ?b3 mod 64, 4)"
    using decodeRune_cases [OF assms] by blast
  then show ?thesis
  proof cases
    case 1
    then show ?thesis
      using assms(1) take_nths(1) [of s] by (simp add: decodeRune_def)
  next
    case 2
    then show ?thesis
      using take_nths(2) [of s] by (simp add: decodeRune_def)
  next
    case 3
    then show ?thesis
      using take_nths(3) [of s] by (simp add: decodeRune_def)
  next
    case 4
    then show ?thesis
      using take_nths(4) [of s] by (simp add: decodeRune_def)
  qed
qed

section \<open>The scanner reads back what the encoder writes for a string\<close>

lemma hexval_hex: "d < 16 \<Longrightarrow> hexval (hex d) = Some d"
proof -
  have "\<forall>d\<in>set [0..<16]. hexval (hex d) = Some d"
    by code_simp
  then show "d < 16 \<Longrightarrow> hexval (hex d) = Some d"
    by simp
qed

lemma getu4_escape:
  assumes "hexval a = Some x3" "hexval b = Some x2" "hexval c = Some x1" "hexval d = Some x0"
  shows "getu4 ([bsl, CHR ''u'', a, b, c, d] @ t) = Some (((x3 * 16 + x2) * 16 + x1) * 16 + x0)"
  using assms by (simp add: getu4_def)

lemma hexval_digits: "hexval (CHR ''0'') = Some 0" "hexval (CHR ''2'') = Some 2"
  by (simp_all add: hexval_def)

lemma byte_neq: "c \<noteq> d \<Longrightarrow> byte c \<noteq> byte d"
  by simp



lemma escapeASCII_safe:
  assumes "htmlSafe (byte c)"
  shows "escapeASCII c = [c]" and "c \<noteq> bsl" and "c \<noteq> dq" and "\<not> byte c < 0x20"
  using assms by (auto simp: escapeASCII_def htmlSafe_def)

lemma escapeASCII_quote:
  assumes "c = bsl \<or> c = dq"
  shows "escapeASCII c = [bsl, c]" and "simpleEscape c = Some c" and "c \<noteq> CHR ''u''"
  using assms by (auto simp: escapeASCII_def simpleEscape_def htmlSafe_def)


lemma escapeASCII_short:
  assumes "c \<in> {CHR 0x08, CHR 0x0C, CHR 0x0A, CHR 0x0D, CHR 0x09}"
  shows "\<exists>e. escapeASCII c = [bsl, e] \<and> simpleEscape e = Some c \<and> e \<noteq> CHR ''u''"
proof -
  from assms consider "c = CHR 0x08" | "c = CHR 0x0C" | "c = CHR 0x0A" | "c = CHR 0x0D" | "c = CHR 0x09"
    by blast
  then show ?thesis
    by cases (simp_all add: escapeASCII_def simpleEscape_def htmlSafe_def)
qed


lemma stringStep_simple:
  assumes "simpleEscape e = Some c" and "e \<noteq> CHR ''u''"
  shows "stringStep ([bsl, e] @ R) = Some ([c], 2)"
  using assms by (simp add: stringStep_def)

lemma stringStep_plain:
  assumes "c \<noteq> bsl" and "\<not> byte c < 0x20" and "byte c < 0x80"
  shows "stringStep ([c] @ R) = Some ([c], 1)"
  using assms by (simp add: stringStep_def)

lemma escapeASCII_long:
  assumes "byte c < 0x80" and "\<not> htmlSafe (byte c)"
    and "c \<notin> {bsl, dq, CHR 0x08, CHR 0x0C, CHR 0x0A, CHR 0x0D, CHR 0x09}"
  shows "escapeASCII c = [bsl, CHR ''u'', CHR ''0'', CHR ''0'', hex (byte c div 16), hex (byte c mod 16)]"
proof -
  let ?b = "byte c"
  have ne: "?b \<noteq> 0x5C" "?b \<noteq> 0x22" "?b \<noteq> 0x08" "?b \<noteq> 0x0C" "?b \<noteq> 0x0A" "?b \<noteq> 0x0D" "?b \<noteq> 0x09"
    using assms(3) byte_neq [of c bsl] byte_neq [of c dq] byte_neq [of c "CHR 0x08"]
      byte_neq [of c "CHR 0x0C"] byte_neq [of c "CHR 0x0A"] byte_neq [of c "CHR 0x0D"]
      byte_neq [of c "CHR 0x09"]
    by simp_all
  then show ?thesis
    using assms(2) by (simp add: escapeASCII_def Let_def)
qed

lemma stringStep_u00:
  assumes "b < 0x80"
  shows "stringStep ([bsl, CHR ''u'', CHR ''0'', CHR ''0'', hex (b div 16), hex (b mod 16)] @ R)
         = Some ([char_of b], 6)"
proof -
  let ?s = "[bsl, CHR ''u'', CHR ''0'', CHR ''0'', hex (b div 16), hex (b mod 16)] @ R"
  have d: "b div 16 < 16" "b mod 16 < 16"
    using assms by simp_all
  have "getu4 ?s = Some (((0 * 16 + 0) * 16 + b div 16) * 16 + b mod 16)"
    by (intro getu4_escape hexval_digits hexval_hex d)
  then have "getu4 ?s = Some b"
    by simp
  moreover have "encodeRune b = [char_of b]"
    using assms by (simp add: encodeRune_def)
  ultimately have "unicodeEscape ?s = Some ([char_of b], 6)"
    using assms by (simp add: unicodeEscape_def)
  then show ?thesis
    by (simp add: stringStep_def)
qed


lemma stringStep_escapeASCII:
  assumes "byte c < 0x80"
  shows "stringStep (escapeASCII c @ R) = Some ([c], length (escapeASCII c))
         \<and> (escapeASCII c @ R) ! 0 \<noteq> dq"
proof -
  let ?b = "byte c"
  consider (safe) "htmlSafe ?b"
    | (quote) "c = bsl \<or> c = dq"
    | (short) "c \<in> {CHR 0x08, CHR 0x0C, CHR 0x0A, CHR 0x0D, CHR 0x09}"
    | (long) "\<not> htmlSafe ?b" "c \<notin> {bsl, dq, CHR 0x08, CHR 0x0C, CHR 0x0A, CHR 0x0D, CHR 0x09}"
    by blast
  then show ?thesis
  proof cases
    case safe
    from escapeASCII_safe [OF safe] stringStep_plain [of c R] assms show ?thesis
      by simp
  next
    case quote
    from escapeASCII_quote [OF quote] stringStep_simple [of c c R] show ?thesis
      by simp
  next
    case short
    then obtain e where "escapeASCII c = [bsl, e]" and "simpleEscape e = Some c" and "e \<noteq> CHR ''u''"
      using escapeASCII_short by blast
    with stringStep_simple [of e c R] show ?thesis
      by simp
  next
    case long
    from escapeASCII_long [OF assms long] stringStep_u00 [OF assms, of R] show ?thesis
      by simp
  qed
qed

lemma stringStep_escapeStep:
  assumes "s \<noteq> []" and "\<not> invalidAt s"
  shows "stringStep (fst (escapeStep s) @ R)
           = Some (take (snd (escapeStep s)) s, length (fst (escapeStep s)))
         \<and> (fst (escapeStep s) @ R) ! 0 \<noteq> dq"
proof (cases "byte (s ! 0) < 0x80")
  case True
  with assms(1) stringStep_escapeASCII [OF True, of R] take_nths(1) [of s] show ?thesis
    by (simp add: escapeStep_def)
next
  case False
  obtain c size where d: "decodeRune s = (c, size)"
    by (cases "decodeRune s")
  have enc: "encodeRune c = take size s"
    using encode_decode [OF assms] d by simp
  have pos: "0 < size" and le: "size \<le> length s"
    using decodeRune_size_pos [OF assms(1)] decodeRune_size_le [of s] d by simp_all
  have valid: "\<not> (c = RuneError \<and> size = 1)"
    using assms(2) d by (simp add: invalidAt_def)
  show ?thesis
  proof (cases "c = 0x2028 \<or> c = 0x2029")
    case True
    let ?chunk = "[bsl, CHR ''u'', CHR ''2'', CHR ''0'', CHR ''2'', hex (c mod 16)]"
    have chunk: "escapeStep s = (?chunk, size)"
      using False d valid True by (auto simp: escapeStep_def)
    have "getu4 (?chunk @ R) = Some (((2 * 16 + 0) * 16 + 2) * 16 + c mod 16)"
      by (intro getu4_escape hexval_digits hexval_hex) simp
    then have "getu4 (?chunk @ R) = Some c"
      using True by auto
    then have "unicodeEscape (?chunk @ R) = Some (take size s, 6)"
      using True enc by (auto simp: unicodeEscape_def)
    then show ?thesis
      by (simp add: chunk stringStep_def)
  next
    case other: False
    have chunk: "escapeStep s = (take size s, size)"
      using False d valid other by (auto simp: escapeStep_def)
    have hd: "(take size s @ R) ! 0 = s ! 0"
      using pos assms(1) by (cases s) (auto simp: nth_append)
    have "decodeRune (take size s @ R) = (c, size)"
      using decodeRune_take [OF assms, of R] d by simp
    with hd False enc le have "stringStep (take size s @ R) = Some (take size s, size)"
      by (auto simp: stringStep_def)
    moreover have "s ! 0 \<noteq> dq"
      using False by auto
    ultimately show ?thesis
      using hd le by (simp add: chunk min_absorb2)
  qed
qed


lemma escapeStep_size: "s \<noteq> [] \<Longrightarrow> snd (escapeStep s) = snd (decodeRune s)"
  by (auto simp: escapeStep_def decodeRune_ascii split: prod.splits)

lemma scanString_escape:
  "ValidString s \<Longrightarrow> scanString (escape s @ dq # rest) = Some (s, rest)"
proof (induction s rule: escape.induct)
  case (1 s)
  show ?case
  proof (cases "s = []")
    case True
    then show ?thesis
      by (simp add: escape.simps [of "[]"] scanString.simps [of "dq # rest"])
  next
    case False
    let ?n = "snd (escapeStep s)" and ?chunk = "fst (escapeStep s)"
    let ?R = "escape (drop ?n s) @ dq # rest"
    from "1.prems" False have valid: "\<not> invalidAt s" and tail: "ValidString (drop ?n s)"
      by (simp_all add: ValidString.simps [of s] escapeStep_size split: if_splits)
    from "1.IH" [OF False tail] have rec: "scanString ?R = Some (drop ?n s, rest)" .
    from stringStep_escapeStep [OF False valid, of ?R]
    have step: "stringStep (?chunk @ ?R) = Some (take ?n s, length ?chunk)"
      and nq: "(?chunk @ ?R) ! 0 \<noteq> dq"
      by simp_all
    have "escape s @ dq # rest = ?chunk @ ?R"
      using False by (simp add: escape.simps [of s])
    moreover have "scanString (?chunk @ ?R) = Some (take ?n s @ drop ?n s, rest)"
      using step nq rec by (simp add: scanString.simps [of "?chunk @ ?R"])
    ultimately show ?thesis
      by simp
  qed
qed

section \<open>The decoder reads back what the encoder writes for a ledger\<close>

lemma parse_feed: "parse data = feed (BeginValue, []) data"
  by (simp add: parse_def feed_def)

lemma feed_Nil: "feed ps [] = (case fst ps of EndTop v \<Rightarrow> Some v | _ \<Rightarrow> None)"
  by (simp add: feed_def lex.simps [of "[]"])

lemma feed_space: "isSpace c \<Longrightarrow> feed ps (c # s) = feed ps s"
  by (simp add: feed_def lex.simps [of "c # s"])

lemma feed_token:
  assumes "\<not> isSpace c" and "nextToken (c # s) = Some (t, rest)"
  shows "feed ps (c # s) = (case step ps t of None \<Rightarrow> None | Some ps' \<Rightarrow> feed ps' rest)"
  using assms by (simp add: feed_def lex.simps [of "c # s"] split: option.splits)

lemma feed_punctuation:
  assumes "punctuation c = Some t"
  shows "feed ps (c # s) = (case step ps t of None \<Rightarrow> None | Some ps' \<Rightarrow> feed ps' s)"
proof -
  from assms have "\<not> isSpace c"
    by (auto simp: punctuation_def isSpace_def split: if_splits)
  moreover from assms have "nextToken (c # s) = Some (t, s)"
    by (simp add: nextToken_def)
  ultimately show ?thesis
    by (rule feed_token)
qed

lemma feed_newline: "feed ps (newline d @ s) = feed ps s"
proof -
  have "feed ps (replicate n (CHR '' '') @ s) = feed ps s" for n
    by (induction n) (simp_all add: feed_space isSpace_def)
  then show ?thesis
    by (simp add: newline_def feed_space isSpace_def)
qed

lemma feed_string:
  assumes "ValidString v"
  shows "feed ps (appendString v @ s)
         = (case step ps (TString v) of None \<Rightarrow> None | Some ps' \<Rightarrow> feed ps' s)"
proof -
  have "nextToken (dq # escape v @ dq # s) = Some (TString v, s)"
    using scanString_escape [OF assms, of s] by (simp add: nextToken_def punctuation_def)
  moreover have "\<not> isSpace dq"
    by (simp add: isSpace_def)
  ultimately show ?thesis
    unfolding appendString_def by (simp add: feed_token)
qed


lemma ValidString_ascii: "\<forall>c\<in>set s. byte c < 0x80 \<Longrightarrow> ValidString s"
proof (induction s)
  case Nil
  show ?case
    by (simp add: ValidString.simps [of "[]"])
next
  case (Cons c cs)
  then have "decodeRune (c # cs) = (byte c, 1)"
    by (simp add: decodeRune_ascii)
  with Cons show ?case
    by (simp add: ValidString.simps [of "c # cs"] invalidAt_def RuneError_def)
qed

lemma valid_keys:
  "ValidString ''name''" "ValidString ''phone''" "ValidString ''linkedin''" "ValidString ''timestamp''"
  by (simp_all add: ValidString_ascii)

lemma feed_member:
  assumes "ValidString key" and "ValidString v"
    and "ph = BeginStringOrEmpty \<or> ph = BeginString"
  shows "feed (ph, InObject ms # st) (member key v @ s)
         = feed (EndValue, InObject ((key, JString v) # ms) # st) s"
proof -
  have "feed (ph, InObject ms # st) (member key v @ s)
        = feed (ExpectColon, InMember ms key # st) (CHR '':'' # CHR '' '' # appendString v @ s)"
    using assms(3) by (auto simp: member_def feed_string [OF assms(1)] step_def beginKey_def)
  also have "\<dots> = feed (BeginValue, InMember ms key # st) (CHR '' '' # appendString v @ s)"
    by (simp add: feed_punctuation [where t = TColon] punctuation_def step_def)
  also have "\<dots> = feed (BeginValue, InMember ms key # st) (appendString v @ s)"
    by (simp add: feed_space isSpace_def)
  also have "\<dots> = feed (EndValue, InObject ((key, JString v) # ms) # st) s"
    by (simp add: feed_string [OF assms(2)] step_def beginValue_def)
  finally show ?thesis .
qed

lemma feed_comma_object:
  "feed (EndValue, InObject ms # st) (CHR '','' # s) = feed (BeginString, InObject ms # st) s"
  by (simp add: feed_punctuation [where t = TComma] punctuation_def step_def)

lemma feed_comma_array:
  "feed (EndValue, InArray es # st) (CHR '','' # s) = feed (BeginValue, InArray es # st) s"
  by (simp add: feed_punctuation [where t = TComma] punctuation_def step_def)

lemma feed_open_object:
  assumes "ph = BeginValue \<or> ph = BeginValueOrEmpty" and "length st < maxNestingDepth"
  shows "feed (ph, st) (CHR ''{'' # s) = feed (BeginStringOrEmpty, InObject [] # st) s"
  using assms
  by (auto simp: feed_punctuation [where t = TLBrace] punctuation_def step_def beginValue_def push_def)

lemma feed_close_object:
  "feed (EndValue, InObject ms # InArray es # st) (CHR ''}'' # s)
   = feed (EndValue, InArray (JObject (rev ms) # es) # st) s"
  by (simp add: feed_punctuation [where t = TRBrace] punctuation_def step_def closeObject_def)

lemma feed_submission:
  assumes "validSubmission r" and "ph = BeginValue \<or> ph = BeginValueOrEmpty"
    and "Suc (length st) < maxNestingDepth"
  shows "feed (ph, InArray es # st) (encodeSubmission r @ s)
         = feed (EndValue, InArray (jsubmission r # es) # st) s"
proof -
  from assms(1) have v: "ValidString (Name r)" "ValidString (Phone r)" "ValidString (LinkedIn r)"
    "ValidString (Timestamp r)"
    by (simp_all add: validSubmission_def)
  let ?st = "InArray es # st"
  let ?tail = "newline 2 @ member ''timestamp'' (Timestamp r) @ newline 1 @ CHR ''}'' # s"
  let ?link = "(if LinkedIn r = [] then [] else newline 2 @ member ''linkedin'' (LinkedIn r) @ '','')"
  let ?n = "(''name'', JString (Name r))" and ?p = "(''phone'', JString (Phone r))"
  let ?l = "(''linkedin'', JString (LinkedIn r))" and ?t = "(''timestamp'', JString (Timestamp r))"
  let ?ms = "(if LinkedIn r = [] then [] else [?l]) @ [?p, ?n]"
  have "feed (ph, ?st) (encodeSubmission r @ s)
        = feed (BeginStringOrEmpty, InObject [] # ?st)
            (newline 2 @ member ''name'' (Name r) @ CHR '','' # newline 2
             @ member ''phone'' (Phone r) @ CHR '','' # ?link @ ?tail)"
    using assms(2,3) by (simp add: encodeSubmission_def feed_open_object)
  also have "\<dots> = feed (EndValue, InObject [?n] # ?st)
            (CHR '','' # newline 2 @ member ''phone'' (Phone r) @ CHR '','' # ?link @ ?tail)"
    by (simp only: feed_newline feed_member [OF valid_keys(1) v(1)] append_assoc simp_thms)
  also have "\<dots> = feed (EndValue, InObject [?p, ?n] # ?st) (CHR '','' # ?link @ ?tail)"
    by (simp only: feed_comma_object feed_newline feed_member [OF valid_keys(2) v(2)] simp_thms)
  also have "\<dots> = feed (BeginString, InObject ?ms # ?st) ?tail"
  proof (cases "LinkedIn r = []")
    case True
    then show ?thesis
      by (simp add: feed_comma_object)
  next
    case False
    have "feed (EndValue, InObject [?p, ?n] # ?st)
            (CHR '','' # (newline 2 @ member ''linkedin'' (LinkedIn r) @ '','') @ ?tail)
          = feed (EndValue, InObject [?l, ?p, ?n] # ?st) (CHR '','' # ?tail)"
      by (simp only: feed_comma_object feed_newline feed_member [OF valid_keys(3) v(3)]
          append_assoc append_Cons append_Nil simp_thms)
    with False show ?thesis
      by (simp add: feed_comma_object)
  qed
  also have "\<dots> = feed (EndValue, InObject (?t # ?ms) # ?st) (newline 1 @ CHR ''}'' # s)"
    by (simp only: feed_newline feed_member [OF valid_keys(4) v(4)] simp_thms)
  also have "\<dots> = feed (EndValue, InArray (JObject (rev (?t # ?ms)) # es) # st) s"
    by (simp only: feed_newline feed_close_object)
  also have "JObject (rev (?t # ?ms)) = jsubmission r"
    by (simp add: jsubmission_def)
  finally show ?thesis .
qed


lemma depth_ok: "Suc 0 < maxNestingDepth" "0 < maxNestingDepth"
  by (simp_all add: maxNestingDepth_def)

lemma feed_elements:
  assumes "xs \<noteq> []" and "\<forall>r\<in>set xs. validSubmission r"
    and "ph = BeginValue \<or> ph = BeginValueOrEmpty"
  shows "feed (ph, [InArray es]) (encodeElements xs @ s)
         = feed (EndValue, [InArray (rev (map jsubmission xs) @ es)]) s"
  using assms
proof (induction xs arbitrary: ph es rule: encodeElements.induct)
  case 1
  then show ?case by simp
next
  case (2 r)
  then show ?case
    by (simp add: feed_submission depth_ok)
next
  case (3 r r' rs)
  have "feed (ph, [InArray es]) (encodeElements (r # r' # rs) @ s)
        = feed (EndValue, [InArray (jsubmission r # es)])
            (CHR '','' # newline 1 @ encodeElements (r' # rs) @ s)"
    using "3.prems" by (simp add: feed_submission depth_ok)
  also have "\<dots> = feed (BeginValue, [InArray (jsubmission r # es)]) (encodeElements (r' # rs) @ s)"
    by (simp only: feed_comma_array feed_newline)
  also have "\<dots> = feed (EndValue, [InArray (rev (map jsubmission (r' # rs)) @ jsubmission r # es)]) s"
    using "3.prems" by (intro "3.IH") simp_all
  finally show ?case
    by simp
qed

lemma parse_MarshalIndent:
  assumes "\<forall>r\<in>set xs. validSubmission r"
  shows "parse (MarshalIndent xs) = Some (JArray (map jsubmission xs))"
proof (cases "xs = []")
  case True
  have "feed (BeginValue, []) ''[]'' = feed (BeginValueOrEmpty, [InArray []]) '']''"
    by (simp add: feed_punctuation [where t = TLBracket] punctuation_def step_def beginValue_def
        push_def maxNestingDepth_def)
  also have "\<dots> = feed (EndTop (JArray []), []) []"
    by (simp add: feed_punctuation [where t = TRBracket] punctuation_def step_def closeArray_def)
  finally show ?thesis
    using True by (simp add: parse_feed MarshalIndent_def feed_Nil)
next
  case False
  let ?vs = "map jsubmission xs"
  have "feed (BeginValue, []) (MarshalIndent xs)
        = feed (BeginValueOrEmpty, [InArray []]) (newline 1 @ encodeElements xs @ newline 0 @ '']'')"
    using False
    by (simp add: MarshalIndent_def feed_punctuation [where t = TLBracket] punctuation_def step_def
        beginValue_def push_def maxNestingDepth_def)
  also have "\<dots> = feed (EndValue, [InArray (rev ?vs @ [])]) (newline 0 @ '']'')"
    by (simp only: feed_newline feed_elements [OF False assms] simp_thms)
  also have "\<dots> = feed (EndTop (JArray ?vs), []) []"
    by (simp add: feed_newline feed_punctuation [where t = TRBracket] punctuation_def step_def
        closeArray_def)
  finally show ?thesis
    by (simp add: parse_feed feed_Nil)
qed

lemma fieldOf_keys:
  "fieldOf ''name'' = Some FName" "fieldOf ''phone'' = Some FPhone"
  "fieldOf ''linkedin'' = Some FLinkedIn" "fieldOf ''timestamp'' = Some FTimestamp"
  by code_simp+

lemma element_jsubmission: "element (jsubmission r) = Some r"
  by (cases r) (simp add: element_def jsubmission_def fieldOf_keys zeroSubmission_def)

lemma array_jsubmission: "array (map jsubmission xs) = Some xs"
  by (induction xs) (simp_all add: element_jsubmission)

lemma Unmarshal_MarshalIndent:
  assumes "\<forall>r\<in>set xs. validSubmission r"
  shows "Unmarshal (MarshalIndent xs) = Some xs"
  by (simp add: Unmarshal_def parse_MarshalIndent [OF assms] array_jsubmission)

section \<open>The handlers: validation, methods, the profile link\<close>

lemma append_calls:
  assumes "appendSubmissionToGitHub cfg cl now item (w, cs) = (r, (w', cs'))"
  shows "cs' = cs @ [Fetch (getURL cfg)] \<or>
         (\<exists>content sha. cs' = cs @ [Fetch (getURL cfg),
             Commit (putURL cfg) (updateRequest cfg now (MarshalIndent (ledger content @ [item])) sha)])"
  using assms
  by (auto simp: appendSubmissionToGitHub_def getGitHubFile_def putGitHubFile_def Let_def
      split: prod.splits sum.splits response.splits option.splits if_splits)

text \<open>
  Claim C8. A POST to \<^verbatim>\<open>/api/login\<close> whose name or phone is empty once the white space
  around it is trimmed (a field the body lacks is empty) is answered 400 with the message
  \<^verbatim>\<open>name and phone are required\<close>, and the world and the record of calls are as they
  were: neither a fetch nor a commit is issued.
\<close>

theorem validation_short_circuits:
  assumes "Method r = ''POST''" and "Body r = Inr inp"
    and "TrimSpace (inName inp) = [] \<or> TrimSpace (inPhone inp) = []"
  shows "apiLogin cfg cl now later r io = (httpError ''name and phone are required'' 400, io)"
  using assms by (auto simp: apiLogin_def withCORS_def loginHandler_def)

theorem validation_short_circuits_witness:
  "Method blankName = ''POST''
   \<and> Body blankName = Inr \<lparr>inName = ''  '', inPhone = ''555-0100'', inLinkedIn = []\<rparr>
   \<and> TrimSpace ''  '' = []
   \<and> apiLogin exampleConfig github ''2024-05-01T10:00:00Z'' ''2024-05-01T10:00:01Z'' blankName
         (emptyStore, [])
       = (\<lparr>Status = 400, Text = ''name and phone are required'' @ [CHR 0x0A]\<rparr>, (emptyStore, []))"
proof -
  have blank: "TrimSpace ''  '' = []"
    by code_simp
  have "apiLogin exampleConfig github ''2024-05-01T10:00:00Z'' ''2024-05-01T10:00:01Z'' blankName
          (emptyStore, [])
        = (httpError ''name and phone are required'' 400, (emptyStore, []))"
    by (rule validation_short_circuits [where inp = "\<lparr>inName = ''  '', inPhone = ''555-0100'', inLinkedIn = []\<rparr>"])
      (simp_all add: blankName_def blank)
  with blank show ?thesis
    by (simp add: blankName_def httpError_def)
qed

text \<open>
  Claim C10, as amended. A request to \<^verbatim>\<open>/api/login\<close> whose method is not POST causes no
  call to the store; it is answered 405 unless its method is OPTIONS, which the CORS
  wrapper answers 204 before the handler is reached.
\<close>

theorem wrong_method:
  assumes "Method r \<noteq> ''POST''"
  shows "apiLogin cfg cl now later r io =
           (if Method r = ''OPTIONS'' then \<lparr>Status = 204, Text = []\<rparr>
            else httpError ''method not allowed'' 405, io)"
  using assms by (auto simp: apiLogin_def withCORS_def loginHandler_def)

theorem wrong_method_witness:
  "Method getRequest \<noteq> ''POST''
   \<and> apiLogin exampleConfig github [] [] getRequest (emptyStore, [])
       = (\<lparr>Status = 405, Text = ''method not allowed'' @ [CHR 0x0A]\<rparr>, (emptyStore, []))"
proof -
  have m: "Method getRequest \<noteq> ''POST''"
    by (simp add: getRequest_def)
  from wrong_method [OF m, of exampleConfig github "[]" "[]" "(emptyStore, [])"] m show ?thesis
    by (simp add: getRequest_def httpError_def)
qed

text \<open>Claim C10 as stated fails at a preflight request: its method is not POST and the answer is 204.\<close>

theorem wrong_method_counterexample:
  "Method preflight \<noteq> ''POST''
   \<and> Status (fst (apiLogin exampleConfig github [] [] preflight (emptyStore, []))) = 204
   \<and> Status (fst (apiLogin exampleConfig github [] [] preflight (emptyStore, []))) \<noteq> 405"
  by (simp add: preflight_def apiLogin_def withCORS_def)

text \<open>
  Claim C9, as amended. For a valid POST, the record handed to the store carries the
  profile link of the body with the white space around it trimmed: every commit the
  request makes holds a ledger that ends with the record of the trimmed name, phone and
  link and the clock's reading.
\<close>

theorem linkedin_trimmed:
  assumes "Method r = ''POST''" and "Body r = Inr inp"
    and "TrimSpace (inName inp) \<noteq> []" and "TrimSpace (inPhone inp) \<noteq> []"
    and "apiLogin cfg cl now later r (w, []) = (rep, (w', cs))"
    and "Commit url body \<in> set cs"
  shows "\<exists>arr. reqContent body = MarshalIndent (arr @
           [\<lparr>Name = TrimSpace (inName inp), Phone = TrimSpace (inPhone inp),
             LinkedIn = TrimSpace (inLinkedIn inp), Timestamp = now\<rparr>])"
proof -
  let ?item = "\<lparr>Name = TrimSpace (inName inp), Phone = TrimSpace (inPhone inp),
             LinkedIn = TrimSpace (inLinkedIn inp), Timestamp = now\<rparr>"
  obtain res where "appendSubmissionToGitHub cfg cl later ?item (w, []) = (res, (w', cs))"
    using assms(1-5)
    by (auto simp: apiLogin_def withCORS_def loginHandler_def Let_def split: prod.splits sum.splits)
  from append_calls [OF this] assms(6) show ?thesis
    by (auto simp: updateRequest_def)
qed

lemma spacedLink_run:
  "apiLogin exampleConfig github ''2024-05-01T10:00:00Z'' ''2024-05-01T10:00:01Z'' spacedLink
     (emptyStore, [])
   = (saved,
      (\<lparr>blob = Some (MarshalIndent [adaLinked], 0), rivals = []\<rparr>,
       [Fetch (getURL exampleConfig),
        Commit (putURL exampleConfig)
          (updateRequest exampleConfig ''2024-05-01T10:00:01Z'' (MarshalIndent [adaLinked]) [])]))"
  by code_simp

lemma ledger_adaLinked: "ledger (MarshalIndent [adaLinked]) = [adaLinked]"
  by code_simp

theorem linkedin_trimmed_witness:
  "Method spacedLink = ''POST''
   \<and> Body spacedLink = Inr \<lparr>inName = ''Ada Lovelace'', inPhone = ''555-0100'', inLinkedIn = '' in/ada''\<rparr>
   \<and> TrimSpace ''Ada Lovelace'' \<noteq> [] \<and> TrimSpace ''555-0100'' \<noteq> []
   \<and> Commit (putURL exampleConfig)
         (updateRequest exampleConfig ''2024-05-01T10:00:01Z'' (MarshalIndent [adaLinked]) [])
       \<in> set (snd (snd (apiLogin exampleConfig github ''2024-05-01T10:00:00Z''
                 ''2024-05-01T10:00:01Z'' spacedLink (emptyStore, []))))
   \<and> (\<exists>arr. MarshalIndent [adaLinked] = MarshalIndent (arr @
           [\<lparr>Name = TrimSpace ''Ada Lovelace'', Phone = TrimSpace ''555-0100'',
             LinkedIn = TrimSpace '' in/ada'', Timestamp = ''2024-05-01T10:00:00Z''\<rparr>]))"
proof -
  let ?inp = "\<lparr>inName = ''Ada Lovelace'', inPhone = ''555-0100'', inLinkedIn = '' in/ada''\<rparr>"
  let ?body = "updateRequest exampleConfig ''2024-05-01T10:00:01Z'' (MarshalIndent [adaLinked]) []"
  have m: "Method spacedLink = ''POST''" and b: "Body spacedLink = Inr ?inp"
    by (simp_all add: spacedLink_def)
  have n: "TrimSpace (inName ?inp) \<noteq> []" and p: "TrimSpace (inPhone ?inp) \<noteq> []"
    by code_simp+
  have c: "Commit (putURL exampleConfig) ?body
             \<in> set [Fetch (getURL exampleConfig), Commit (putURL exampleConfig) ?body]"
    by simp
  from linkedin_trimmed [OF m b n p spacedLink_run c]
  have "\<exists>arr. reqContent ?body = MarshalIndent (arr @
           [\<lparr>Name = TrimSpace (inName ?inp), Phone = TrimSpace (inPhone ?inp),
             LinkedIn = TrimSpace (inLinkedIn ?inp), Timestamp = ''2024-05-01T10:00:00Z''\<rparr>])" .
  with m b n p c show ?thesis
    by (simp add: spacedLink_run updateRequest_def)
qed

text \<open>
  Claim C9 as stated fails where the link of the body has white space around it: the
  request is valid and saved, and the link stored is not the link supplied.
\<close>

theorem linkedin_counterexample:
  "Body spacedLink = Inr \<lparr>inName = ''Ada Lovelace'', inPhone = ''555-0100'', inLinkedIn = '' in/ada''\<rparr>
   \<and> Status (fst (apiLogin exampleConfig github ''2024-05-01T10:00:00Z'' ''2024-05-01T10:00:01Z''
         spacedLink (emptyStore, []))) = 201
   \<and> map LinkedIn (stored (fst (snd (apiLogin exampleConfig github ''2024-05-01T10:00:00Z''
         ''2024-05-01T10:00:01Z'' spacedLink (emptyStore, []))))) = [''in/ada'']
   \<and> ''in/ada'' \<noteq> '' in/ada''"
  by (simp add: spacedLink_run stored_def ledger_adaLinked)
    (simp add: spacedLink_def saved_def adaLinked_def)

end
